theory Spec2Isabelle
  imports Complex_Main "HOL-Library.Word"
begin

unbundle bit_operations_syntax

section \<open>Data model\<close>

text \<open>
  The program is \<^verbatim>\<open>create-icon.py\<close>: a pixel function \<^verbatim>\<open>icon(x, y)\<close> and a PNG
  encoder \<^verbatim>\<open>create_png(width, height, pixels)\<close>. Python integers are unbounded
  (\<open>int\<close>), a byte string is a list of 8-bit words, a colour is the 4-tuple the pixel
  function returns. Every exception the code can raise is a value of \<open>error\<close>:
  \<^item> \<open>OverflowError\<close>: \<^verbatim>\<open>math.sqrt\<close> of an integer too large to convert to a float;
  \<^item> \<open>ValueError\<close>: \<^verbatim>\<open>bytes(t)\<close> with a component outside \<^verbatim>\<open>range(256)\<close>,
    or \<^verbatim>\<open>math.sqrt\<close> of a negative number;
  \<^item> \<open>StructError\<close>: \<^verbatim>\<open>struct.pack('>I', n)\<close> with \<open>n\<close> outside \<open>[0, 2^32)\<close>.
\<close>

datatype error = OverflowError | ValueError | StructError

type_synonym byte = "8 word"
type_synonym bytes = "byte list"
type_synonym color = "int \<times> int \<times> int \<times> int"
type_synonym pixel_fun = "int \<Rightarrow> int \<Rightarrow> error + color"

section \<open>The pixel function\<close>

text \<open>
  \<^verbatim>\<open>math.sqrt(n)\<close> converts the integer \<open>n\<close> to a double first. The conversion rounds
  to nearest-even on 53 bits and raises \<^verbatim>\<open>OverflowError\<close> when the rounded value
  exceeds the largest double \<open>2^1024 - 2^971\<close>, that is from \<open>2^1024 - 2^970\<close> on.
  Below that bound the result is the correctly rounded square root. The code compares
  it only with the integers 460, 440, 400, 340, 300, 125 and 120; since rounding is
  monotone and these are doubles, and since no integer has a square root within a
  rounding error of them without being their square, each comparison gives the answer
  of the exact square root, which is what the model computes.
\<close>

definition float_overflow_bound :: int where
  "float_overflow_bound = 2 ^ 1024 - 2 ^ 970"

definition math_sqrt :: "int \<Rightarrow> error + real" where
  "math_sqrt n =
     (if float_overflow_bound \<le> n then Inl OverflowError
      else if n < 0 then Inl ValueError
      else Inr (sqrt (real_of_int n)))"

text \<open>
  \<^verbatim>\<open>math.atan2(y, x)\<close>, the angle of the point \<open>(x, y)\<close> in \<open>(-pi, pi]\<close>, with
  \<^verbatim>\<open>atan2(0, 0) = 0\<close>. The code calls it with the absolute offsets, both at most 400
  at that point, so the conversion of the arguments to doubles is exact. The model
  takes the exact angle and the exact bounds \<open>4/5\<close> and \<open>3/2\<close>; the library's result
  and the double written \<^verbatim>\<open>0.8\<close> differ from them by a rounding error, which decides
  nothing that is proved below.
\<close>

definition atan2 :: "real \<Rightarrow> real \<Rightarrow> real" where
  "atan2 y x =
     (if 0 < x then arctan (y / x)
      else if x < 0 then (if 0 \<le> y then arctan (y / x) + pi else arctan (y / x) - pi)
      else if 0 < y then pi / 2
      else if y < 0 then - (pi / 2)
      else 0)"

text \<open>
  The inner-arc block (lines 34 to 39) returns from \<^verbatim>\<open>icon\<close> in two of its three
  cases and falls through to the centre-dot rules otherwise: \<open>None\<close> is the fall-through.
\<close>

definition inner_arc :: "real \<Rightarrow> int \<Rightarrow> int \<Rightarrow> color option" where
  "inner_arc r dy dx =
     (if r > 300 \<and> r < 340 then
        (let angle = atan2 (real_of_int dy) (real_of_int dx) in
         if angle < 0.8 then Some (204, 119, 255, 255)
         else if angle < 1.5 then Some (102, 136, 204, 255)
         else None)
      else None)"

definition icon :: pixel_fun where
  "icon x y =
     (let cx = 512; cy = 512;
          dx = \<bar>x - cx\<bar>; dy = \<bar>y - cy\<bar>
      in case math_sqrt (dx * dx + dy * dy) of
           Inl e \<Rightarrow> Inl e
         | Inr r \<Rightarrow>
             if r > 460 then Inr (0, 0, 0, 0)
             else if r > 440 then Inr (102, 136, 204, 255)
             else if r > 400 then Inr (0, 0, 0, 255)
             else if dy < 60 \<and> dx < 350 then Inr (255, 153, 0, 255)
             else if dx < 60 \<and> dy < 350 then Inr (102, 204, 204, 255)
             else (case inner_arc r dy dx of
                     Some c \<Rightarrow> Inr c
                   | None \<Rightarrow>
                       if r < 120 then Inr (153, 204, 255, 255)
                       else if r < 125 then Inr (102, 136, 204, 255)
                       else Inr (0, 8, 20, 255)))"

text \<open>The distance from the centre that \<^verbatim>\<open>icon\<close> computes, for stating properties.\<close>

definition radius :: "int \<Rightarrow> int \<Rightarrow> real" where
  "radius x y = sqrt (real_of_int (\<bar>x - 512\<bar> * \<bar>x - 512\<bar> + \<bar>y - 512\<bar> * \<bar>y - 512\<bar>))"

definition alpha :: "color \<Rightarrow> int" where
  "alpha c = (case c of (r, g, b, a) \<Rightarrow> a)"

text \<open>The opaque colours that \<^verbatim>\<open>icon\<close> returns, in the order of its return statements.\<close>

definition palette :: "color list" where
  "palette = [(102, 136, 204, 255), (0, 0, 0, 255), (255, 153, 0, 255), (102, 204, 204, 255),
              (204, 119, 255, 255), (153, 204, 255, 255), (0, 8, 20, 255)]"

section \<open>The image encoder\<close>

subsection \<open>Library calls\<close>

text \<open>
  \<^verbatim>\<open>bytes(t)\<close> of a 4-tuple of integers: one byte per component, \<^verbatim>\<open>ValueError\<close> when
  a component is outside \<^verbatim>\<open>range(256)\<close>. A pixel function returns a 4-tuple of
  integers, as \<^verbatim>\<open>icon\<close> does, or raises.
\<close>

definition bytes_of :: "color \<Rightarrow> error + bytes" where
  "bytes_of c =
     (case c of (r, g, b, a) \<Rightarrow>
        if list_all (\<lambda>v. 0 \<le> v \<and> v < 256) [r, g, b, a]
        then Inr (map word_of_int [r, g, b, a])
        else Inl ValueError)"









subsection \<open>The encoder\<close>


text \<open>
  The two loops that build \<^verbatim>\<open>raw\<close>; \<^verbatim>\<open>range(n)\<close> is empty for \<open>n \<le> 0\<close>. The
  accumulator is the buffer so far; an exception of the pixel function or of
  \<^verbatim>\<open>bytes\<close> ends the loops.
\<close>

fun row_loop :: "pixel_fun \<Rightarrow> int \<Rightarrow> nat list \<Rightarrow> bytes \<Rightarrow> error + bytes" where
  "row_loop pixels y [] raw = Inr raw"
| "row_loop pixels y (x # xs) raw =
     (case pixels (int x) y of
        Inl e \<Rightarrow> Inl e
      | Inr c \<Rightarrow>
          (case bytes_of c of
             Inl e \<Rightarrow> Inl e
           | Inr b \<Rightarrow> row_loop pixels y xs (raw @ b)))"

fun scan_loop :: "pixel_fun \<Rightarrow> int \<Rightarrow> nat list \<Rightarrow> bytes \<Rightarrow> error + bytes" where
  "scan_loop pixels width [] raw = Inr raw"
| "scan_loop pixels width (y # ys) raw =
     (case row_loop pixels (int y) [0..<nat width] (raw @ [0x00]) of
        Inl e \<Rightarrow> Inl e
      | Inr raw' \<Rightarrow> scan_loop pixels width ys raw')"

definition raw_scanlines :: "int \<Rightarrow> int \<Rightarrow> pixel_fun \<Rightarrow> error + bytes" where
  "raw_scanlines width height pixels = scan_loop pixels width [0..<nat height] []"


section \<open>The container format as the specification words it\<close>

text \<open>
  The raw scanline buffer: for each row a filter byte 0, then the four bytes of each
  pixel of the row in red-green-blue-alpha order.
\<close>

definition rgba :: "error + color \<Rightarrow> bytes" where
  "rgba p = (case p of Inl e \<Rightarrow> [] | Inr (r, g, b, a) \<Rightarrow> map word_of_int [r, g, b, a])"

definition scanline :: "pixel_fun \<Rightarrow> nat \<Rightarrow> nat \<Rightarrow> bytes" where
  "scanline P W y = 0x00 # concat (map (\<lambda>x. rgba (P (int x) (int y))) [0..<W])"

definition scanlines :: "pixel_fun \<Rightarrow> nat \<Rightarrow> nat \<Rightarrow> bytes" where
  "scanlines P W H = concat (map (scanline P W) [0..<H])"

definition valid_pixel :: "error + color \<Rightarrow> bool" where
  "valid_pixel p =
     (case p of Inl e \<Rightarrow> False
      | Inr (r, g, b, a) \<Rightarrow> list_all (\<lambda>v. 0 \<le> v \<and> v < 256) [r, g, b, a])"










section \<open>Square roots against integer thresholds\<close>

lemma sqrt_gt_numeral:
  "(numeral k < sqrt (real_of_int n)) = (numeral k * numeral k < n)"
proof -
  have e: "(numeral k :: real) = sqrt ((numeral k)\<^sup>2)"
    by (simp only: real_sqrt_abs abs_numeral)
  have "(numeral k < sqrt (real_of_int n)) = (sqrt ((numeral k)\<^sup>2) < sqrt (real_of_int n))"
    using e by (simp only:)
  also have "\<dots> = ((numeral k)\<^sup>2 < real_of_int n)"
    by (rule real_sqrt_less_iff)
  also have "\<dots> = (real_of_int (numeral k * numeral k) < real_of_int n)"
    by (simp only: power2_eq_square of_int_mult of_int_numeral)
  also have "\<dots> = (numeral k * numeral k < n)"
    by (rule of_int_less_iff)
  finally show ?thesis .
qed

lemma sqrt_lt_numeral:
  "(sqrt (real_of_int n) < numeral k) = (n < numeral k * numeral k)"
proof -
  have e: "(numeral k :: real) = sqrt ((numeral k)\<^sup>2)"
    by (simp only: real_sqrt_abs abs_numeral)
  have "(sqrt (real_of_int n) < numeral k) = (sqrt (real_of_int n) < sqrt ((numeral k)\<^sup>2))"
    using e by (simp only:)
  also have "\<dots> = (real_of_int n < (numeral k)\<^sup>2)"
    by (rule real_sqrt_less_iff)
  also have "\<dots> = (real_of_int n < real_of_int (numeral k * numeral k))"
    by (simp only: power2_eq_square of_int_mult of_int_numeral)
  also have "\<dots> = (n < numeral k * numeral k)"
    by (rule of_int_less_iff)
  finally show ?thesis .
qed

lemma float_overflow_bound_large: "(1000000 :: int) < float_overflow_bound"
proof -
  have "(2::int) ^ 970 * 2 ^ 54 = 2 ^ 1024"
    by (simp add: power_add [symmetric])
  then have "float_overflow_bound = 2 ^ 970 * (2 ^ 54 - 1)"
    by (simp add: float_overflow_bound_def algebra_simps)
  moreover have "(1::int) \<le> 2 ^ 970" by simp
  moreover have "(1000000::int) < 2 ^ 54 - 1" by simp
  ultimately show ?thesis
    by (metis less_le_trans mult_le_cancel_right1 zero_less_numeral
        less_imp_le order_less_trans not_le)
qed

lemma sqrt_numeral_gt_numeral:
  "(numeral k < sqrt (numeral m)) = (numeral k * numeral k < (numeral m :: int))"
  using sqrt_gt_numeral [of k "numeral m"] by simp

lemma sqrt_numeral_lt_numeral:
  "(sqrt (numeral m) < numeral k) = ((numeral m :: int) < numeral k * numeral k)"
  using sqrt_lt_numeral [of "numeral m" k] by simp

lemma sqrt_eq_numeral:
  "(sqrt (real_of_int n) = numeral k) = (n = numeral k * numeral k)"
  using sqrt_lt_numeral [of n k] sqrt_gt_numeral [of k n] by linarith

section \<open>The pixel function by regions\<close>

text \<open>
  Below the conversion bound \<^verbatim>\<open>icon\<close> is a decision list on the squared distance
  \<open>n\<close> and the two absolute offsets; only the inner arc looks at the angle.
\<close>

lemma not_overflow_small: "n \<le> 1000000 \<Longrightarrow> \<not> float_overflow_bound \<le> n"
  using float_overflow_bound_large by linarith

lemma sq_sum_nonneg: "\<not> (a * a + b * b < (0::int))"
  by (simp add: not_less)

lemma icon_cases:
  assumes "dx = \<bar>x - 512\<bar>" and "dy = \<bar>y - 512\<bar>" and "n = dx * dx + dy * dy"
    and "\<not> float_overflow_bound \<le> n"
  shows "icon x y =
    (if 211600 < n then Inr (0, 0, 0, 0)
     else if 193600 < n then Inr (102, 136, 204, 255)
     else if 160000 < n then Inr (0, 0, 0, 255)
     else if dy < 60 \<and> dx < 350 then Inr (255, 153, 0, 255)
     else if dx < 60 \<and> dy < 350 then Inr (102, 204, 204, 255)
     else (case inner_arc (sqrt (real_of_int n)) dy dx of
             Some c \<Rightarrow> Inr c
           | None \<Rightarrow>
               if n < 14400 then Inr (153, 204, 255, 255)
               else if n < 15625 then Inr (102, 136, 204, 255)
               else Inr (0, 8, 20, 255)))"
proof -
  have "math_sqrt (\<bar>x - 512\<bar> * \<bar>x - 512\<bar> + \<bar>y - 512\<bar> * \<bar>y - 512\<bar>) = Inr (sqrt (real_of_int n))"
    using assms by (simp add: math_sqrt_def sq_sum_nonneg del: of_int_add of_int_mult of_int_diff)
  then show ?thesis
    unfolding icon_def Let_def assms(1,2) [symmetric]
    by (simp add: sqrt_gt_numeral sqrt_lt_numeral)
qed

lemma icon_at:
  "n = \<bar>x - 512\<bar> * \<bar>x - 512\<bar> + \<bar>y - 512\<bar> * \<bar>y - 512\<bar> \<Longrightarrow> n \<le> 1000000 \<Longrightarrow>
   icon x y =
    (if 211600 < n then Inr (0, 0, 0, 0)
     else if 193600 < n then Inr (102, 136, 204, 255)
     else if 160000 < n then Inr (0, 0, 0, 255)
     else if \<bar>y - 512\<bar> < 60 \<and> \<bar>x - 512\<bar> < 350 then Inr (255, 153, 0, 255)
     else if \<bar>x - 512\<bar> < 60 \<and> \<bar>y - 512\<bar> < 350 then Inr (102, 204, 204, 255)
     else (case inner_arc (sqrt (real_of_int n)) \<bar>y - 512\<bar> \<bar>x - 512\<bar> of
             Some c \<Rightarrow> Inr c
           | None \<Rightarrow>
               if n < 14400 then Inr (153, 204, 255, 255)
               else if n < 15625 then Inr (102, 136, 204, 255)
               else Inr (0, 8, 20, 255)))"
  by (rule icon_cases [OF refl refl]) (simp_all add: not_overflow_small)

lemma inner_arc_colors:
  "inner_arc r dy dx = Some c \<Longrightarrow> c = (204, 119, 255, 255) \<or> c = (102, 136, 204, 255)"
  by (auto simp: inner_arc_def Let_def split: if_splits)


lemma radius_gt_numeral:
  "(numeral k < radius x y) =
   (numeral k * numeral k < \<bar>x - 512\<bar> * \<bar>x - 512\<bar> + \<bar>y - 512\<bar> * \<bar>y - 512\<bar>)"
  unfolding radius_def by (rule sqrt_gt_numeral)

lemma radius_lt_numeral:
  "(radius x y < numeral k) =
   (\<bar>x - 512\<bar> * \<bar>x - 512\<bar> + \<bar>y - 512\<bar> * \<bar>y - 512\<bar> < numeral k * numeral k)"
  unfolding radius_def by (rule sqrt_lt_numeral)

lemma radius_eq_numeral:
  "(radius x y = numeral k) =
   (\<bar>x - 512\<bar> * \<bar>x - 512\<bar> + \<bar>y - 512\<bar> * \<bar>y - 512\<bar> = numeral k * numeral k)"
  unfolding radius_def by (rule sqrt_eq_numeral)

lemma bytes_of_valid: "valid_pixel (Inr c) \<Longrightarrow> bytes_of c = Inr (rgba (Inr c))"
  by (cases c) (simp add: valid_pixel_def bytes_of_def rgba_def)

lemma icon_palette:
  assumes "dx = \<bar>x - 512\<bar>" and "dy = \<bar>y - 512\<bar>" and "n = dx * dx + dy * dy"
    and "\<not> float_overflow_bound \<le> n"
  shows "if 211600 < n then icon x y = Inr (0, 0, 0, 0)
         else \<exists>c \<in> set palette. icon x y = Inr c"
proof (cases "inner_arc (sqrt (real_of_int n)) dy dx")
  case None
  then show ?thesis
    unfolding icon_cases [OF assms] by (simp add: palette_def)
next
  case (Some c)
  then have "c = (204, 119, 255, 255) \<or> c = (102, 136, 204, 255)"
    by (rule inner_arc_colors)
  with Some show ?thesis
    unfolding icon_cases [OF assms] by (auto simp: palette_def)
qed

lemma palette_opaque:
  "c \<in> set palette \<Longrightarrow> valid_pixel (Inr c) \<and> alpha c = 255"
  by (auto simp: palette_def valid_pixel_def alpha_def)

section \<open>The fall-through of the inner arc\<close>

text \<open>
  The inner-arc block leaves a pixel to the centre-dot rules when its angle is at
  least 1.5. With \<open>r < 340\<close> such an angle needs a horizontal offset below 60
  (\<open>tan 1.5 > 6\<close>, from the Maclaurin bound \<open>cos (3/2) \<le> 11/128\<close>), and such a
  pixel has already been given the colour of the vertical bar. So no pixel of the band
  \<open>300 < r < 340\<close> that reaches the block falls through it: each gets one of the two
  arc colours.
\<close>

lemma cos_three_halves: "cos (3 / 2 :: real) \<le> 11 / 128"
proof -
  obtain t :: real where
    c: "cos (3 / 2) = (\<Sum>m<4. cos_coeff m * (3 / 2) ^ m)
          + (cos (t + 1 / 2 * real (4::nat) * pi) / fact 4) * (3 / 2) ^ 4"
    using Maclaurin_cos_expansion [of "3 / 2" 4] by blast
  have "(\<Sum>m<4. f m) = f 0 + f 1 + f 2 + f 3" for f :: "nat \<Rightarrow> real"
    by (simp add: eval_nat_numeral)
  then have s: "(\<Sum>m<4. cos_coeff m * (3 / 2 :: real) ^ m) = - (1 / 8)"
    by (simp add: cos_coeff_def fact_numeral power2_eq_square)
  have "cos (t + 1 / 2 * real (4::nat) * pi) \<le> 1"
    by (rule cos_le_one)
  then have "(cos (t + 1 / 2 * real (4::nat) * pi) / fact 4) * (3 / 2) ^ 4 \<le> (1 / fact 4) * (3 / 2) ^ 4"
    by (intro mult_right_mono divide_right_mono) simp_all
  also have "\<dots> = 27 / 128"
    by (simp add: fact_numeral eval_nat_numeral)
  finally show ?thesis
    unfolding c s by simp
qed

lemma arctan_less_three_halves:
  assumes "z \<le> 6"
  shows "arctan z < 3 / 2"
proof (rule ccontr)
  assume "\<not> arctan z < 3 / 2"
  then have a: "3 / 2 \<le> arctan z"
    by simp
  then have "0 < arctan z"
    by linarith
  then have z: "0 < z"
    by (simp only: zero_less_arctan_iff)
  have "arctan z \<le> pi"
    using arctan_ubound [of z] pi_gt_zero by linarith
  with a have "cos (arctan z) \<le> cos (3 / 2)"
    by (intro cos_monotone_0_pi_le) simp_all
  then have le: "1 / sqrt (1 + z\<^sup>2) \<le> 11 / 128"
    using cos_three_halves by (simp add: cos_arctan)
  have "z\<^sup>2 \<le> 6\<^sup>2"
    using z assms by (intro power_mono) simp_all
  then have "1 + z\<^sup>2 < 7\<^sup>2"
    by simp
  then have "sqrt (1 + z\<^sup>2) < 7"
    by (intro real_less_lsqrt) simp_all
  moreover have "0 < sqrt (1 + z\<^sup>2)"
    by (intro real_sqrt_gt_zero) (simp add: add_pos_nonneg)
  ultimately have "1 / 7 < 1 / sqrt (1 + z\<^sup>2)"
    by (simp add: frac_less2)
  with le show False
    by simp
qed

lemma inner_arc_fallthrough_in_bar:
  assumes "radius x y < 340"
    and "3 / 2 \<le> atan2 (real_of_int \<bar>y - 512\<bar>) (real_of_int \<bar>x - 512\<bar>)"
  shows "\<bar>x - 512\<bar> < 60 \<and> \<bar>y - 512\<bar> < 350"
proof -
  define dx where "dx = \<bar>x - 512\<bar>"
  define dy where "dy = \<bar>y - 512\<bar>"
  have n: "dx * dx + dy * dy < 340 * 340"
    using assms(1) by (simp add: radius_lt_numeral dx_def dy_def)
  have dx0: "0 \<le> dx" and dy0: "0 \<le> dy"
    by (simp_all add: dx_def dy_def)
  have "dy * dy < 340 * 340"
    using n mult_nonneg_nonneg [OF dx0 dx0] by linarith
  then have dy: "dy < 340"
    using dy0 by (meson mult_mono not_less order_trans zero_le_numeral)
  have "dx < 60"
  proof (rule ccontr)
    assume "\<not> dx < 60"
    then have dx: "60 \<le> dx"
      by simp
    then have "real_of_int dy / real_of_int dx \<le> 6"
      using dy by (simp add: divide_le_eq)
    then have "arctan (real_of_int dy / real_of_int dx) < 3 / 2"
      by (rule arctan_less_three_halves)
    moreover have "atan2 (real_of_int dy) (real_of_int dx) = arctan (real_of_int dy / real_of_int dx)"
      using dx by (simp add: atan2_def)
    ultimately show False
      using assms(2) by (simp add: dx_def dy_def)
  qed
  with dy show ?thesis
    by (simp add: dx_def dy_def)
qed

lemma inner_arc_band_angle:
  assumes "300 < radius x y" and "radius x y < 340"
    and "\<not> (\<bar>y - 512\<bar> < 60 \<and> \<bar>x - 512\<bar> < 350)"
    and "\<not> (\<bar>x - 512\<bar> < 60 \<and> \<bar>y - 512\<bar> < 350)"
  shows "atan2 (real_of_int \<bar>y - 512\<bar>) (real_of_int \<bar>x - 512\<bar>) < 3 / 2"
  using inner_arc_fallthrough_in_bar [OF assms(2)] assms(4) by fastforce

lemma inner_arc_band_colours:
  assumes "300 < radius x y" and "radius x y < 340"
    and "\<not> (\<bar>y - 512\<bar> < 60 \<and> \<bar>x - 512\<bar> < 350)"
    and "\<not> (\<bar>x - 512\<bar> < 60 \<and> \<bar>y - 512\<bar> < 350)"
  shows "icon x y =
           Inr (if atan2 (real_of_int \<bar>y - 512\<bar>) (real_of_int \<bar>x - 512\<bar>) < 0.8
                then (204, 119, 255, 255) else (102, 136, 204, 255))"
proof -
  define n where "n = \<bar>x - 512\<bar> * \<bar>x - 512\<bar> + \<bar>y - 512\<bar> * \<bar>y - 512\<bar>"
  have r: "radius x y = sqrt (real_of_int n)"
    by (simp only: radius_def n_def)
  have n: "90000 < n" "n < 115600"
    using assms(1,2) by (simp_all add: radius_gt_numeral radius_lt_numeral n_def)
  have a: "atan2 (real_of_int \<bar>y - 512\<bar>) (real_of_int \<bar>x - 512\<bar>) < 3 / 2"
    using assms by (rule inner_arc_band_angle)
  have "inner_arc (sqrt (real_of_int n)) \<bar>y - 512\<bar> \<bar>x - 512\<bar> =
          Some (if atan2 (real_of_int \<bar>y - 512\<bar>) (real_of_int \<bar>x - 512\<bar>) < 0.8
                then (204, 119, 255, 255) else (102, 136, 204, 255))"
    using assms(1,2) a unfolding r by (simp add: inner_arc_def Let_def)
  then show ?thesis
    using n assms(3,4) by (simp add: icon_at [OF n_def])
qed

lemma inner_arc_band_example:
  "300 < radius 832 572 \<and> radius 832 572 < 340 \<and>
   (icon 832 572 = Inr (204, 119, 255, 255) \<or> icon 832 572 = Inr (102, 136, 204, 255))"
proof -
  have r: "300 < radius 832 572" "radius 832 572 < 340"
    by (simp_all add: radius_gt_numeral radius_lt_numeral)
  from inner_arc_band_colours [OF r] r show ?thesis
    by (simp split: if_splits)
qed

section \<open>Properties of the pixel function\<close>




text \<open>
  C2 (as the specification states it): a pixel at distance exactly 460 from the centre,
  such as (512 + 276, 512 + 368), is fully transparent. The code tests \<^verbatim>\<open>r > 460\<close>,
  which is false there, and the next rule \<^verbatim>\<open>r > 440\<close> gives the opaque outer band.
\<close>

theorem icon_r460_opaque_example:
  "radius 788 880 = 460 \<and> icon 788 880 = Inr (102, 136, 204, 255) \<and>
   alpha (102, 136, 204, 255) = 255"
  by (simp add: radius_eq_numeral icon_at [OF refl] alpha_def)

text \<open>
  C2 (amended): for every pixel whose distance from the centre (512, 512) is exactly
  460 the pixel function returns the opaque blue-grey band colour (102,136,204,255),
  alpha 255.
\<close>

theorem icon_r460_band:
  assumes "radius x y = 460"
  shows "icon x y = Inr (102, 136, 204, 255) \<and> alpha (102, 136, 204, 255) = 255"
proof -
  define n where "n = \<bar>x - 512\<bar> * \<bar>x - 512\<bar> + \<bar>y - 512\<bar> * \<bar>y - 512\<bar>"
  from assms have n: "n = 211600"
    by (simp add: radius_eq_numeral n_def)
  then show ?thesis
    by (simp add: icon_at [OF n_def] alpha_def)
qed

theorem icon_r460_band_witness:
  "radius 972 512 = 460 \<and> icon 972 512 = Inr (102, 136, 204, 255)"
  using icon_r460_band [of 972 512] by (simp add: radius_eq_numeral)

text \<open>
  C3: every coordinate not matched by the outer-region and ring rules (\<open>r \<le> 400\<close>)
  whose two absolute offsets are both below 60, so that it lies in both cross-bars,
  gets the amber colour (255,153,0,255) of the bar check that is evaluated first.
\<close>

theorem icon_both_bars_amber:
  assumes "radius x y \<le> 400" and "\<bar>x - 512\<bar> < 60" and "\<bar>y - 512\<bar> < 60"
  shows "icon x y = Inr (255, 153, 0, 255)"
proof -
  define n where "n = \<bar>x - 512\<bar> * \<bar>x - 512\<bar> + \<bar>y - 512\<bar> * \<bar>y - 512\<bar>"
  from assms(1) have n: "n \<le> 160000"
    using radius_gt_numeral [of _ x y] by (simp add: n_def not_less [symmetric])
  then show ?thesis
    using assms(2,3) by (simp add: icon_at [OF n_def])
qed

theorem icon_both_bars_amber_witness:
  "radius 500 530 \<le> 400 \<and> \<bar>500 - 512\<bar> < (60::int) \<and> \<bar>530 - 512\<bar> < (60::int) \<and>
   icon 500 530 = Inr (255, 153, 0, 255)"
proof -
  have h: "radius 500 530 \<le> 400"
    using radius_gt_numeral [of _ 500 530] by (simp add: not_less [symmetric])
  show ?thesis
    using h icon_both_bars_amber [OF h] by simp
qed

text \<open>
  C9: the pixel function is mirror-symmetric about both axes through the centre:
  \<open>icon x y = icon (1024 - x) y = icon x (1024 - y)\<close> for all integers, since it
  reads its arguments only through \<open>\<bar>x - 512\<bar>\<close> and \<open>\<bar>y - 512\<bar>\<close>. The equality
  is between outcomes: where one side raises, the other raises the same exception.
\<close>

theorem icon_mirror: "icon x y = icon (1024 - x) y \<and> icon x y = icon x (1024 - y)"
proof -
  have "\<bar>1024 - x - 512\<bar> = \<bar>x - 512\<bar>" and "\<bar>1024 - y - 512\<bar> = \<bar>y - 512\<bar>"
    by linarith+
  then show ?thesis
    by (simp only: icon_def Let_def)
qed

text \<open>
  C10 (as stated): for every integer coordinate \<^verbatim>\<open>icon\<close> returns a 4-tuple. It does
  not for coordinates so far out that the squared distance does not convert to a
  double: there \<^verbatim>\<open>math.sqrt\<close> raises \<^verbatim>\<open>OverflowError\<close>.
\<close>

theorem icon_huge_raises: "icon (2 ^ 600) 0 = Inl OverflowError"
  by (simp add: icon_def math_sqrt_def float_overflow_bound_def)

text \<open>
  C10 (amended): for every integer coordinate whose squared distance from the centre is
  below \<open>2^1024 - 2^970\<close> (all coordinates of the canvas among them), \<^verbatim>\<open>icon\<close>
  returns a 4-tuple of integers in \<open>[0, 255]\<close>; its alpha is 0 exactly when
  \<open>r > 460\<close> and 255 otherwise, and \<^verbatim>\<open>bytes\<close> of the tuple succeeds.
\<close>

theorem icon_color_range:
  assumes "\<bar>x - 512\<bar> * \<bar>x - 512\<bar> + \<bar>y - 512\<bar> * \<bar>y - 512\<bar> < float_overflow_bound"
  shows "\<exists>c. icon x y = Inr c \<and> valid_pixel (Inr c) \<and>
             (alpha c = 0) = (460 < radius x y) \<and>
             (alpha c \<noteq> 0 \<longrightarrow> alpha c = 255) \<and>
             (\<exists>bs. bytes_of c = Inr bs)"
proof -
  define dx where "dx = \<bar>x - 512\<bar>"
  define dy where "dy = \<bar>y - 512\<bar>"
  define n where "n = dx * dx + dy * dy"
  have nb: "\<not> float_overflow_bound \<le> n"
    using assms by (simp add: n_def dx_def dy_def)
  have r: "(460 < radius x y) = (211600 < n)"
    by (simp add: radius_gt_numeral n_def dx_def dy_def)
  note pal = icon_palette [OF dx_def dy_def n_def nb]
  show ?thesis
  proof (cases "211600 < n")
    case True
    with pal have "icon x y = Inr (0, 0, 0, 0)"
      by simp
    moreover have "valid_pixel (Inr (0, 0, 0, 0))" and "alpha (0, 0, 0, 0) = 0"
      by (simp_all add: valid_pixel_def alpha_def)
    ultimately show ?thesis
      using True r bytes_of_valid by blast
  next
    case False
    with pal obtain c where c: "c \<in> set palette" and i: "icon x y = Inr c"
      by auto
    from c have "valid_pixel (Inr c)" and "alpha c = 255"
      by (simp_all add: palette_opaque)
    then show ?thesis
      using False r i bytes_of_valid by auto
  qed
qed

theorem icon_color_range_witness:
  "\<bar>0 - 512\<bar> * \<bar>0 - 512\<bar> + \<bar>0 - 512\<bar> * \<bar>0 - 512\<bar> < float_overflow_bound \<and>
   (\<exists>c. icon 0 0 = Inr c \<and> valid_pixel (Inr c) \<and> alpha c = 0 \<and> (\<exists>bs. bytes_of c = Inr bs))"
proof -
  have h: "\<bar>0 - 512\<bar> * \<bar>0 - 512\<bar> + \<bar>0 - 512\<bar> * \<bar>0 - 512\<bar> < float_overflow_bound"
    using float_overflow_bound_large by simp
  have "460 < radius 0 0"
    by (simp add: radius_gt_numeral)
  with h icon_color_range [OF h] show ?thesis
    by auto
qed


section \<open>The raw scanline buffer\<close>

text \<open>
  The loops return a buffer exactly when every pixel of the canvas converts to four
  bytes, and the buffer is then the row-major one of the specification.
\<close>

lemma bytes_of_Inr_iff:
  "bytes_of c = Inr b \<longleftrightarrow> valid_pixel (Inr c) \<and> b = rgba (Inr c)"
  by (cases c) (auto simp: bytes_of_def valid_pixel_def rgba_def)

lemma length_rgba: "valid_pixel p \<Longrightarrow> length (rgba p) = 4"
  by (auto simp: valid_pixel_def rgba_def split: sum.splits)

lemma row_loop_Inr_iff:
  "row_loop P y xs raw = Inr raw' \<longleftrightarrow>
     (\<forall>x \<in> set xs. valid_pixel (P (int x) y)) \<and>
     raw' = raw @ concat (map (\<lambda>x. rgba (P (int x) y)) xs)"
proof (induction xs arbitrary: raw)
  case Nil
  show ?case by auto
next
  case (Cons x xs)
  show ?case
  proof (cases "P (int x) y")
    case (Inl e)
    then show ?thesis by (simp add: valid_pixel_def)
  next
    case (Inr c)
    show ?thesis
    proof (cases "bytes_of c")
      case (Inl e)
      with Inr show ?thesis
        using bytes_of_Inr_iff [of c] by auto
    next
      case b: (Inr b)
      then have "valid_pixel (Inr c)" and "b = rgba (Inr c)"
        by (simp_all add: bytes_of_Inr_iff)
      with Inr b show ?thesis
        by (simp add: Cons.IH)
    qed
  qed
qed

lemma scan_loop_Inr_iff:
  "scan_loop P W ys raw = Inr raw' \<longleftrightarrow>
     (\<forall>y \<in> set ys. \<forall>x < nat W. valid_pixel (P (int x) (int y))) \<and>
     raw' = raw @ concat (map (scanline P (nat W)) ys)"
proof (induction ys arbitrary: raw)
  case Nil
  show ?case by auto
next
  case (Cons y ys)
  let ?row = "row_loop P (int y) [0..<nat W] (raw @ [0x00])"
  have row: "?row = Inr r \<longleftrightarrow>
      (\<forall>x < nat W. valid_pixel (P (int x) (int y))) \<and> r = raw @ scanline P (nat W) y" for r
    by (simp add: row_loop_Inr_iff scanline_def) auto
  show ?case
  proof (cases ?row)
    case (Inl e)
    then have "\<not> (\<forall>x < nat W. valid_pixel (P (int x) (int y)))"
      using row [of "raw @ scanline P (nat W) y"] by auto
    with Inl show ?thesis by auto
  next
    case (Inr r)
    then have "\<forall>x < nat W. valid_pixel (P (int x) (int y))"
      and "r = raw @ scanline P (nat W) y"
      by (simp_all add: row)
    with Inr show ?thesis
      by (simp add: Cons.IH)
  qed
qed

lemma raw_scanlines_Inr_iff:
  "raw_scanlines W H P = Inr raw \<longleftrightarrow>
     (\<forall>y < nat H. \<forall>x < nat W. valid_pixel (P (int x) (int y))) \<and>
     raw = scanlines P (nat W) (nat H)"
  by (auto simp: raw_scanlines_def scan_loop_Inr_iff scanlines_def)

lemma length_concat_uniform:
  "\<forall>x \<in> set xs. length (f x) = k \<Longrightarrow> length (concat (map f xs)) = length xs * k"
  by (induction xs) simp_all

lemma length_scanline:
  "\<forall>x < W. valid_pixel (P (int x) (int y)) \<Longrightarrow> length (scanline P W y) = 1 + W * 4"
  using length_concat_uniform [of "[0..<W]" "\<lambda>x. rgba (P (int x) (int y))" 4]
  by (simp add: scanline_def length_rgba)

lemma length_scanlines:
  assumes "\<forall>y < H. \<forall>x < W. valid_pixel (P (int x) (int y))"
  shows "length (scanlines P W H) = H * (1 + W * 4)"
  using length_concat_uniform [of "[0..<H]" "scanline P W" "1 + W * 4"] assms
  by (simp add: scanlines_def length_scanline)

section \<open>Chunks and their checksums\<close>


















section \<open>Properties of the encoder\<close>

text \<open>
  C5: for every width \<open>W \<ge> 0\<close>, height \<open>H \<ge> 0\<close> and pixel function returning
  4-tuples of integers in \<open>[0, 256)\<close>, the raw scanline buffer that \<^verbatim>\<open>create_png\<close>
  builds is the row-major concatenation, for each row, of a filter byte 0 and the four
  bytes of each pixel in red-green-blue-alpha order; its length is \<open>H * (1 + W * 4)\<close>.
  For \<open>W = H = 4\<close> and the constant pixel (1,2,3,4) it has 68 bytes, each row a 0
  followed by four times 1, 2, 3, 4.
\<close>

theorem raw_scanlines_layout:
  assumes "0 \<le> W" and "0 \<le> H"
    and "\<forall>x y. 0 \<le> x \<and> x < W \<and> 0 \<le> y \<and> y < H \<longrightarrow> valid_pixel (P x y)"
  shows "raw_scanlines W H P = Inr (scanlines P (nat W) (nat H)) \<and>
         length (scanlines P (nat W) (nat H)) = nat H * (1 + nat W * 4)"
proof -
  have v: "\<forall>y < nat H. \<forall>x < nat W. valid_pixel (P (int x) (int y))"
    using assms(3) by (simp add: zless_nat_eq_int_zless)
  then show ?thesis
    by (simp add: raw_scanlines_Inr_iff length_scanlines)
qed

theorem raw_scanlines_layout_witness:
  "raw_scanlines 4 4 (\<lambda>x y. Inr (1, 2, 3, 4)) =
     Inr (concat (replicate 4 (0x00 # concat (replicate 4 [1, 2, 3, 4])))) \<and>
   length (concat (replicate 4 (0x00 # concat (replicate 4 [1, 2, 3, 4 :: byte])))) = 68"
proof -
  have s: "scanlines (\<lambda>x y. Inr (1, 2, 3, 4)) 4 4 =
             concat (replicate 4 (0x00 # concat (replicate 4 [1, 2, 3, 4])))"
    by (simp add: scanlines_def scanline_def rgba_def upt_rec [of _ "numeral _"] eval_nat_numeral)
  show ?thesis
    using raw_scanlines_layout [of 4 4 "\<lambda>x y. Inr (1, 2, 3, 4)"]
    by (simp add: s valid_pixel_def)
qed







end
